theory Spec2Isabelle
  imports Main "HOL-Library.AList"
begin

section \<open>JavaScript values\<close>

text \<open>
  The option objects, the task's fields and the arguments of the public methods hold
  arbitrary JavaScript values. The values that the validators of the source tell apart are
  represented: \<open>undefined\<close>, \<open>null\<close>, booleans, integral numbers, strings, dates (as
  milliseconds since the epoch) and arrays. Numbers with a fractional part, \<open>NaN\<close> and
  invalid dates are not represented.
\<close>

datatype jsval =
    JUndefined
  | JNull
  | JBool bool
  | JNum int
  | JStr string
  | JDate int
  | JArr "jsval list"

text \<open>Truthiness, as the operators \<open>||\<close>, \<open>&&\<close> and \<open>!\<close> of the source use it.\<close>

fun truthy :: "jsval \<Rightarrow> bool" where
  "truthy JUndefined = False"
| "truthy JNull = False"
| "truthy (JBool b) = b"
| "truthy (JNum n) = (n \<noteq> 0)"
| "truthy (JStr s) = (s \<noteq> [])"
| "truthy (JDate d) = True"
| "truthy (JArr xs) = True"

definition js_or :: "jsval \<Rightarrow> jsval \<Rightarrow> jsval" where
  "js_or a b = (if truthy a then a else b)"

definition js_and :: "jsval \<Rightarrow> jsval \<Rightarrow> jsval" where
  "js_and a b = (if truthy a then b else a)"

subsection \<open>The predicates of expandjs that the source calls\<close>

definition isDefined :: "jsval \<Rightarrow> bool" where
  "isDefined v = (v \<noteq> JUndefined)"

definition isNull :: "jsval \<Rightarrow> bool" where
  "isNull v = (v = JNull)"

fun isInt :: "jsval \<Rightarrow> bool" where
  "isInt (JNum n) = True"
| "isInt v = False"

text \<open>\<open>XP.isInt(val, true)\<close>: an integer that is not negative.\<close>

fun isIntNotNegative :: "jsval \<Rightarrow> bool" where
  "isIntNotNegative (JNum n) = (0 \<le> n)"
| "isIntNotNegative v = False"

fun isDate :: "jsval \<Rightarrow> bool" where
  "isDate (JDate d) = True"
| "isDate v = False"

fun isArray :: "jsval \<Rightarrow> bool" where
  "isArray (JArr xs) = True"
| "isArray v = False"

text \<open>\<open>XP.isString(val, true)\<close>: a string that is not empty.\<close>

fun isStringNotEmpty :: "jsval \<Rightarrow> bool" where
  "isStringNotEmpty (JStr s) = (s \<noteq> [])"
| "isStringNotEmpty v = False"

text \<open>The comparisons \<open>val < 1\<close> and \<open>val > k\<close> of the validators; they are reached for integers only.\<close>

fun num_lt :: "jsval \<Rightarrow> int \<Rightarrow> bool" where
  "num_lt (JNum n) k = (n < k)"
| "num_lt v k = False"

fun num_gt :: "jsval \<Rightarrow> int \<Rightarrow> bool" where
  "num_gt (JNum n) k = (n > k)"
| "num_gt v k = False"

fun elems :: "jsval \<Rightarrow> jsval list" where
  "elems (JArr xs) = xs"
| "elems v = []"

subsection \<open>Times of day\<close>

definition digit_of :: "char \<Rightarrow> nat option" where
  "digit_of c = map_of
     [(CHR ''0'', 0), (CHR ''1'', 1), (CHR ''2'', 2), (CHR ''3'', 3), (CHR ''4'', 4),
      (CHR ''5'', 5), (CHR ''6'', 6), (CHR ''7'', 7), (CHR ''8'', 8), (CHR ''9'', 9)] c"

definition two_digits :: "char \<Rightarrow> char \<Rightarrow> nat \<Rightarrow> nat option" where
  "two_digits a b bound =
     (case (digit_of a, digit_of b) of
        (Some x, Some y) \<Rightarrow> (if 10 * x + y \<le> bound then Some (10 * x + y) else None)
      | _ \<Rightarrow> None)"

text \<open>
  Modelled from the spec: \<open>XP.timeRegex\<close> and \<open>XP.isTime\<close> of expandjs, which are not part
  of the sources. The spec gives the format \<open>HH:mm[:ss]\<close>; the source reads the hour from
  group 1 of the match, the minute from group 2 and the second from group 4, which is
  undefined when the seconds are left out.
\<close>

fun time_match :: "string \<Rightarrow> (nat \<times> nat \<times> nat option) option" where
  "time_match [h1, h2, c1, m1, m2] =
     (case (two_digits h1 h2 23, two_digits m1 m2 59) of
        (Some h, Some m) \<Rightarrow> (if c1 = CHR '':'' then Some (h, m, None) else None)
      | _ \<Rightarrow> None)"
| "time_match [h1, h2, c1, m1, m2, c2, s1, s2] =
     (case (two_digits h1 h2 23, two_digits m1 m2 59, two_digits s1 s2 59) of
        (Some h, Some m, Some s) \<Rightarrow>
          (if c1 = CHR '':'' \<and> c2 = CHR '':'' then Some (h, m, Some s) else None)
      | _ \<Rightarrow> None)"
| "time_match s = None"

fun isTime :: "jsval \<Rightarrow> bool" where
  "isTime (JStr s) = (time_match s \<noteq> None)"
| "isTime v = False"

text \<open>
  \<open>XP.toDefined(XP.toFinite(this.startTime.match(XP.timeRegex)[k]))\<close> for \<open>k\<close> = 1, 2, 4:
  the number read from the group, \<open>undefined\<close> for a group that did not take part.
\<close>

definition time_hour :: "jsval \<Rightarrow> jsval" where
  "time_hour v = (case v of
       JStr s \<Rightarrow> (case time_match s of Some (h, m, s) \<Rightarrow> JNum (int h) | None \<Rightarrow> JUndefined)
     | _ \<Rightarrow> JUndefined)"

definition time_minute :: "jsval \<Rightarrow> jsval" where
  "time_minute v = (case v of
       JStr s \<Rightarrow> (case time_match s of Some (h, m, s) \<Rightarrow> JNum (int m) | None \<Rightarrow> JUndefined)
     | _ \<Rightarrow> JUndefined)"

definition time_second :: "jsval \<Rightarrow> jsval" where
  "time_second v = (case v of
       JStr s \<Rightarrow> (case time_match s of
                    Some (h, m, Some s) \<Rightarrow> JNum (int s)
                  | _ \<Rightarrow> JUndefined)
     | _ \<Rightarrow> JUndefined)"

section \<open>The task\<close>

subsection \<open>The frozen tables \<open>days\<close>, \<open>frequencies\<close> and \<open>weeks\<close>\<close>

datatype rfreq = YEARLY | MONTHLY | WEEKLY | DAILY | HOURLY | MINUTELY | SECONDLY

datatype wday = MO | TU | WE | TH | FR | SA | SU

text \<open>
  A table is read with a JavaScript value as the key. Only the table's own keys are
  modelled: a value that is not a string finds nothing, and the names every object
  inherits (\<open>constructor\<close>, \<open>toString\<close>, ...) are left out.
\<close>

definition days :: "jsval \<Rightarrow> wday option" where
  "days v = (case v of
       JStr s \<Rightarrow> map_of [(''mo'', MO), (''tu'', TU), (''we'', WE), (''th'', TH),
                          (''fr'', FR), (''sa'', SA), (''su'', SU)] s
     | _ \<Rightarrow> None)"

definition frequencies :: "jsval \<Rightarrow> rfreq option" where
  "frequencies v = (case v of
       JStr s \<Rightarrow> map_of [(''daily'', DAILY), (''hourly'', HOURLY), (''minutely'', MINUTELY),
                          (''monthly'', MONTHLY), (''precise'', YEARLY), (''secondly'', SECONDLY),
                          (''weekly'', WEEKLY), (''yearly'', YEARLY)] s
     | _ \<Rightarrow> None)"

definition weeks :: "jsval \<Rightarrow> int option" where
  "weeks v = (case v of
       JStr s \<Rightarrow> map_of [(''first'', 1), (''second'', 2), (''third'', 3), (''fourth'', 4),
                          (''last'', - 1)] s
     | _ \<Rightarrow> None)"

subsection \<open>Options, the rule handed to the recurrence library, and the task object\<close>

record opts =
  o_endDate :: jsval
  o_frequency :: jsval
  o_id :: jsval
  o_interval :: jsval
  o_iterations :: jsval
  o_month :: jsval
  o_monthDay :: jsval
  o_startDate :: jsval
  o_startTime :: jsval
  o_week :: jsval
  o_weekDay :: jsval
  o_weekDays :: jsval

text \<open>\<open>byweekday\<close> is one weekday constant when \<open>weekDay\<close> is set, an array of them otherwise.\<close>

datatype byweekday = OneDay "wday option" | ManyDays "wday option list"

record rrule =
  rr_freq :: "rfreq option"
  rr_interval :: jsval
  rr_count :: jsval
  rr_byweekday :: byweekday
  rr_bymonth :: jsval
  rr_bymonthday :: jsval
  rr_byhour :: jsval
  rr_byminute :: jsval
  rr_bysecond :: jsval
  rr_bysetpos :: jsval
  rr_dtstart :: jsval
  rr_until :: jsval

record task =
  tid :: string
  endDate :: jsval
  frequency :: jsval
  interval :: jsval
  iterations :: jsval
  month :: jsval
  monthDay :: jsval
  startDate :: jsval
  startTime :: jsval
  week :: jsval
  weekDay :: jsval
  weekDays :: jsval
  adaptee :: "rrule option"

datatype error = ValidationError string string

subsection \<open>The setters and validators of the properties\<close>

definition endDate_set :: "jsval \<Rightarrow> jsval \<Rightarrow> jsval" where
  "endDate_set cur val = (if isDefined cur then cur else val)"

definition endDate_validate :: "jsval \<Rightarrow> string option" where
  "endDate_validate val = (if \<not> isNull val \<and> \<not> isDate val then Some ''Date'' else None)"

definition frequency_set :: "jsval \<Rightarrow> jsval \<Rightarrow> jsval" where
  "frequency_set cur val = js_or cur val"

definition frequency_validate :: "jsval \<Rightarrow> string option" where
  "frequency_validate val = (if frequencies val = None then Some ''string'' else None)"

definition interval_set :: "jsval \<Rightarrow> jsval \<Rightarrow> jsval" where
  "interval_set cur val = (if isDefined cur then cur else val)"

definition interval_validate :: "jsval \<Rightarrow> string option" where
  "interval_validate val =
     (if \<not> isNull val \<and> (\<not> isInt val \<or> num_lt val 1) then Some ''number'' else None)"

definition iterations_set :: "jsval \<Rightarrow> jsval \<Rightarrow> jsval" where
  "iterations_set cur val = (if isDefined cur then cur else val)"

definition iterations_validate :: "jsval \<Rightarrow> string option" where
  "iterations_validate val =
     (if \<not> isNull val \<and> (\<not> isInt val \<or> num_lt val 1) then Some ''number'' else None)"

definition month_set :: "jsval \<Rightarrow> jsval \<Rightarrow> jsval" where
  "month_set cur val = (if isDefined cur then cur else val)"

definition month_validate :: "jsval \<Rightarrow> string option" where
  "month_validate val =
     (if \<not> isNull val \<and> (\<not> isInt val \<or> num_lt val 1 \<or> num_gt val 12)
      then Some ''number'' else None)"

definition monthDay_set :: "jsval \<Rightarrow> jsval \<Rightarrow> jsval" where
  "monthDay_set cur val = (if isDefined cur then cur else val)"

definition monthDay_validate :: "jsval \<Rightarrow> string option" where
  "monthDay_validate val =
     (if \<not> isNull val \<and> (\<not> isInt val \<or> num_lt val 1 \<or> num_gt val 31)
      then Some ''number'' else None)"

definition startDate_set :: "jsval \<Rightarrow> jsval \<Rightarrow> jsval" where
  "startDate_set cur val = (if isDefined cur then cur else val)"

definition startDate_validate :: "jsval \<Rightarrow> string option" where
  "startDate_validate val = (if \<not> isNull val \<and> \<not> isDate val then Some ''Date'' else None)"

definition startTime_set :: "jsval \<Rightarrow> jsval \<Rightarrow> jsval" where
  "startTime_set cur val = (if isDefined cur then cur else val)"

definition startTime_validate :: "jsval \<Rightarrow> string option" where
  "startTime_validate val = (if \<not> isNull val \<and> \<not> isTime val then Some ''string'' else None)"

definition week_set :: "jsval \<Rightarrow> jsval \<Rightarrow> jsval" where
  "week_set cur val = (if isDefined cur then cur else val)"

definition week_validate :: "jsval \<Rightarrow> string option" where
  "week_validate val = (if \<not> isNull val \<and> weeks val = None then Some ''string'' else None)"

definition weekDay_set :: "jsval \<Rightarrow> jsval \<Rightarrow> jsval" where
  "weekDay_set cur val = (if isDefined cur then cur else val)"

definition weekDay_validate :: "jsval \<Rightarrow> string option" where
  "weekDay_validate val = (if \<not> isNull val \<and> days val = None then Some ''string'' else None)"

definition weekDays_set :: "jsval \<Rightarrow> jsval \<Rightarrow> jsval" where
  "weekDays_set cur val = js_or cur val"

definition weekDays_validate :: "jsval \<Rightarrow> string option" where
  "weekDays_validate val =
     (if \<not> isArray val \<or> \<not> list_all (\<lambda>d. days d \<noteq> None) (elems val)
      then Some ''Array'' else None)"

text \<open>
  Modelled from the spec: the assignment to a property that \<open>XP.Class\<close> of expandjs
  declares with \<open>set\<close> and \<open>validate\<close> (the class builder is not part of the sources). The
  value the setter returns is validated and stored; a validator that returns a type name
  raises the validation error that names the field and the expected type. The spec: a
  later attempt to set a field is silently ignored, and a violation yields a validation
  error naming the offending field and its expected type.
\<close>

definition prop_assign ::
  "string \<Rightarrow> (jsval \<Rightarrow> jsval \<Rightarrow> jsval) \<Rightarrow> (jsval \<Rightarrow> string option) \<Rightarrow> jsval \<Rightarrow> jsval \<Rightarrow> error + jsval"
where
  "prop_assign name setter validator cur val =
     (let post = setter cur val in
      case validator post of
        Some expected \<Rightarrow> Inl (ValidationError name expected)
      | None \<Rightarrow> Inr post)"

definition and_then :: "error + 'a \<Rightarrow> ('a \<Rightarrow> error + 'b) \<Rightarrow> error + 'b" where
  "and_then m f = (case m of Inl e \<Rightarrow> Inl e | Inr v \<Rightarrow> f v)"

definition assign_endDate :: "task \<Rightarrow> jsval \<Rightarrow> error + task" where
  "assign_endDate t val =
     and_then (prop_assign ''endDate'' endDate_set endDate_validate (endDate t) val)
       (\<lambda>p. Inr (t\<lparr>endDate := p\<rparr>))"

definition assign_frequency :: "task \<Rightarrow> jsval \<Rightarrow> error + task" where
  "assign_frequency t val =
     and_then (prop_assign ''frequency'' frequency_set frequency_validate (frequency t) val)
       (\<lambda>p. Inr (t\<lparr>frequency := p\<rparr>))"

definition assign_interval :: "task \<Rightarrow> jsval \<Rightarrow> error + task" where
  "assign_interval t val =
     and_then (prop_assign ''interval'' interval_set interval_validate (interval t) val)
       (\<lambda>p. Inr (t\<lparr>interval := p\<rparr>))"

definition assign_iterations :: "task \<Rightarrow> jsval \<Rightarrow> error + task" where
  "assign_iterations t val =
     and_then (prop_assign ''iterations'' iterations_set iterations_validate (iterations t) val)
       (\<lambda>p. Inr (t\<lparr>iterations := p\<rparr>))"

definition assign_month :: "task \<Rightarrow> jsval \<Rightarrow> error + task" where
  "assign_month t val =
     and_then (prop_assign ''month'' month_set month_validate (month t) val)
       (\<lambda>p. Inr (t\<lparr>month := p\<rparr>))"

definition assign_monthDay :: "task \<Rightarrow> jsval \<Rightarrow> error + task" where
  "assign_monthDay t val =
     and_then (prop_assign ''monthDay'' monthDay_set monthDay_validate (monthDay t) val)
       (\<lambda>p. Inr (t\<lparr>monthDay := p\<rparr>))"

definition assign_startDate :: "task \<Rightarrow> jsval \<Rightarrow> error + task" where
  "assign_startDate t val =
     and_then (prop_assign ''startDate'' startDate_set startDate_validate (startDate t) val)
       (\<lambda>p. Inr (t\<lparr>startDate := p\<rparr>))"

definition assign_startTime :: "task \<Rightarrow> jsval \<Rightarrow> error + task" where
  "assign_startTime t val =
     and_then (prop_assign ''startTime'' startTime_set startTime_validate (startTime t) val)
       (\<lambda>p. Inr (t\<lparr>startTime := p\<rparr>))"

definition assign_week :: "task \<Rightarrow> jsval \<Rightarrow> error + task" where
  "assign_week t val =
     and_then (prop_assign ''week'' week_set week_validate (week t) val)
       (\<lambda>p. Inr (t\<lparr>week := p\<rparr>))"

definition assign_weekDay :: "task \<Rightarrow> jsval \<Rightarrow> error + task" where
  "assign_weekDay t val =
     and_then (prop_assign ''weekDay'' weekDay_set weekDay_validate (weekDay t) val)
       (\<lambda>p. Inr (t\<lparr>weekDay := p\<rparr>))"

definition assign_weekDays :: "task \<Rightarrow> jsval \<Rightarrow> error + task" where
  "assign_weekDays t val =
     and_then (prop_assign ''weekDays'' weekDays_set weekDays_validate (weekDays t) val)
       (\<lambda>p. Inr (t\<lparr>weekDays := p\<rparr>))"

subsection \<open>Construction\<close>

text \<open>
  Modelled from the spec: the task's identity. The task class in the sources has no \<open>id\<close>,
  while the scheduler reads \<open>task.id\<close>; the spec: identity is a string, generated if
  absent. \<open>fresh\<close> is the identifier the generator would return.
\<close>

definition assign_id :: "task \<Rightarrow> jsval \<Rightarrow> error + task" where
  "assign_id t val =
     (case val of
        JStr s \<Rightarrow> (if s \<noteq> [] then Inr (t\<lparr>tid := s\<rparr>) else Inl (ValidationError ''id'' ''string''))
      | _ \<Rightarrow> Inl (ValidationError ''id'' ''string''))"

text \<open>The object before \<open>initialize\<close> has run: every property reads \<open>undefined\<close>.\<close>

definition blank :: task where
  "blank = \<lparr>tid = [], endDate = JUndefined, frequency = JUndefined, interval = JUndefined,
     iterations = JUndefined, month = JUndefined, monthDay = JUndefined,
     startDate = JUndefined, startTime = JUndefined, week = JUndefined,
     weekDay = JUndefined, weekDays = JUndefined, adaptee = None\<rparr>"

text \<open>The options object passed to \<open>new RRule\<close>.\<close>

definition make_rrule :: "task \<Rightarrow> rrule" where
  "make_rrule t =
     \<lparr>rr_freq = frequencies (frequency t),
      rr_interval = interval t,
      rr_count = iterations t,
      rr_byweekday = (if truthy (weekDay t) then OneDay (days (weekDay t))
                      else ManyDays (map days (elems (weekDays t)))),
      rr_bymonth = month t,
      rr_bymonthday = monthDay t,
      rr_byhour = js_and (startTime t) (time_hour (startTime t)),
      rr_byminute = js_and (startTime t) (time_minute (startTime t)),
      rr_bysecond = js_and (startTime t) (time_second (startTime t)),
      rr_bysetpos = js_and (week t) (case weeks (week t) of Some n \<Rightarrow> JNum n | None \<Rightarrow> JUndefined),
      rr_dtstart = startDate t,
      rr_until = endDate t\<rparr>"

text \<open>
  \<open>initialize\<close>, at the instant \<open>now\<close> that \<open>new Date()\<close> returns. The first assignment that
  fails validation ends the construction with its error.
\<close>

definition initialize :: "opts \<Rightarrow> string \<Rightarrow> int \<Rightarrow> error + task" where
  "initialize options fresh now =
     and_then (assign_endDate blank (js_or (o_endDate options) JNull)) (\<lambda>t.
     and_then (assign_frequency t (js_or (o_frequency options) (JStr ''precise''))) (\<lambda>t.
     and_then (assign_id t (js_or (o_id options) (JStr fresh))) (\<lambda>t.
     and_then (assign_interval t (js_or (o_interval options) JNull)) (\<lambda>t.
     and_then (assign_iterations t
        (if frequency t \<noteq> JStr ''precise'' then js_or (o_iterations options) JNull else JNum 1)) (\<lambda>t.
     and_then (assign_month t (js_or (o_month options) JNull)) (\<lambda>t.
     and_then (assign_monthDay t (js_or (o_monthDay options) JNull)) (\<lambda>t.
     and_then (assign_startDate t (js_or (o_startDate options) (JDate now))) (\<lambda>t.
     and_then (assign_startTime t (js_or (o_startTime options) JNull)) (\<lambda>t.
     and_then (assign_week t (js_or (o_week options) JNull)) (\<lambda>t.
     and_then (assign_weekDay t (js_or (o_weekDay options) JNull)) (\<lambda>t.
     and_then (assign_weekDays t (js_or (o_weekDays options) (JArr []))) (\<lambda>t.
     Inr (t\<lparr>adaptee := Some (make_rrule t)\<rparr>)))))))))))))"

subsection \<open>The next occurrence\<close>

text \<open>
  The recurrence library (the package \<open>rrule\<close>) is not part of the sources. Its query
  \<open>after(date)\<close>, the first occurrence of the rule after the date or none, is a parameter
  \<open>af\<close> of everything that asks for a next occurrence.
\<close>

type_synonym after_fn = "rrule \<Rightarrow> int \<Rightarrow> int option"

definition nextDate :: "after_fn \<Rightarrow> task \<Rightarrow> int \<Rightarrow> int option" where
  "nextDate af t now = (case adaptee t of None \<Rightarrow> None | Some r \<Rightarrow> af r now)"

text \<open>
  An instance of that parameter for the rules without by-constraints whose period has a
  fixed length of \<open>period\<close> milliseconds (a second, a minute, an hour, a day, a week):
  the occurrences are \<open>dtstart + k * interval * period\<close> for \<open>k\<close> below \<open>count\<close>, none later
  than \<open>until\<close>, and the query returns the earliest one strictly after the instant. For a
  rule with \<open>count = 1\<close> the only occurrence is \<open>dtstart\<close>, whatever the frequency; a
  rule whose step is not positive has none. It instantiates \<open>af\<close> where a concrete input
  is evaluated.
\<close>

definition fixed_step_after :: "int \<Rightarrow> after_fn" where
  "fixed_step_after period r t =
     (case rr_dtstart r of
        JDate d0 \<Rightarrow>
          (let step = (case rr_interval r of JNum k \<Rightarrow> k | _ \<Rightarrow> 1) * period;
               k = (if t < d0 then 0 else (t - d0) div step + 1);
               d = d0 + k * step
           in if 0 < step
                 \<and> (case rr_count r of JNum n \<Rightarrow> k < n | _ \<Rightarrow> True)
                 \<and> (case rr_until r of JDate u \<Rightarrow> d \<le> u | _ \<Rightarrow> True)
              then Some d else None)
      | _ \<Rightarrow> None)"

section \<open>The scheduler\<close>

subsection \<open>State\<close>

text \<open>
  \<open>tasks\<close> and \<open>timers\<close> are JavaScript objects used as dictionaries: lists of key and
  value with distinct keys, in insertion order, which is the order \<open>Object.keys\<close> lists
  the identifiers in (identifiers that look like array indices come first in JavaScript;
  no property below depends on the order). An assignment replaces the value of a present
  key in place and appends an absent one (\<open>AList.update\<close>); \<open>delete\<close> is
  \<open>AList.delete\<close>.

  The host's timer table is part of the state: \<open>pending\<close> holds, for every timeout that
  was set and has neither fired nor been cleared, its handle, the task bound to the
  callback and the instant it is due. Handles are numbered in the order of issue; a
  handle is a timer object, so the test \<open>if (this.timers[id])\<close> of the source asks whether
  the entry is present. \<open>log\<close> records the timers armed and the handlers invoked, in
  order. A handler is opaque: its invocation is recorded, what it does is not modelled.
\<close>

datatype event = Armed string nat int | Invoked string

record sched =
  tasks :: "(string \<times> task) list"
  timers :: "(string \<times> nat) list"
  latest :: nat
  poll_interval :: int
  pending :: "(nat \<times> task \<times> int) list"
  next_handle :: nat
  log :: "event list"

subsection \<open>The scheduler's own properties\<close>

definition poll_interval_set :: "jsval \<Rightarrow> jsval \<Rightarrow> jsval" where
  "poll_interval_set cur val = js_or cur val"

definition poll_interval_validate :: "jsval \<Rightarrow> string option" where
  "poll_interval_validate val = (if \<not> isIntNotNegative val then Some ''number'' else None)"

fun num_of :: "jsval \<Rightarrow> int" where
  "num_of (JNum n) = n"
| "num_of v = 0"

definition assign_poll_interval :: "sched \<Rightarrow> jsval \<Rightarrow> error + sched" where
  "assign_poll_interval s val =
     and_then (prop_assign ''interval'' poll_interval_set poll_interval_validate
                 (JNum (poll_interval s)) val)
       (\<lambda>p. Inr (s\<lparr>poll_interval := num_of p\<rparr>))"

text \<open>
  The scheduler's \<open>initialize\<close> with \<open>options.interval\<close> and the instant \<open>now\<close> that
  \<open>Date.now()\<close> returns. The clock is a natural number, so the validation of \<open>latest\<close>
  always passes. \<open>setInterval\<close> makes the host call \<open>handlePoll\<close> from then on.
\<close>

definition scheduler_initialize :: "jsval \<Rightarrow> nat \<Rightarrow> error + sched" where
  "scheduler_initialize options_interval now =
     and_then (prop_assign ''interval'' poll_interval_set poll_interval_validate JUndefined
                 (js_or options_interval (JNum 60000)))
       (\<lambda>p. Inr \<lparr>tasks = [], timers = [], latest = now, poll_interval = num_of p,
                 pending = [], next_handle = 0, log = []\<rparr>)"

subsection \<open>The host's timers\<close>

text \<open>Node sets a delay below 1 or above 2147483647 to 1.\<close>

definition timeout_delay :: "int \<Rightarrow> int" where
  "timeout_delay d = (if d < 1 \<or> 2147483647 < d then 1 else d)"

definition clearTimeout :: "sched \<Rightarrow> nat \<Rightarrow> sched" where
  "clearTimeout s h = s\<lparr>pending := filter (\<lambda>p. fst p \<noteq> h) (pending s)\<rparr>"

subsection \<open>Handlers\<close>

text \<open>
  Every callback runs at one reading \<open>now\<close> of the clock. \<open>handleTask\<close> is \<open>_handleTask\<close>:
  it returns without effect when the task has no next date or the date is later than
  \<open>latest + interval\<close>, and otherwise sets a timeout bound to the task with the delay
  \<open>date - Date.now()\<close> and stores its handle under the task's id.
\<close>

definition handleTask :: "after_fn \<Rightarrow> sched \<Rightarrow> task \<Rightarrow> nat \<Rightarrow> sched" where
  "handleTask af s t now =
     (case nextDate af t (int now) of
        None \<Rightarrow> s
      | Some date \<Rightarrow>
          (if date > int (latest s) + poll_interval s then s
           else (let h = next_handle s;
                     due = int now + timeout_delay (date - int now)
                 in s\<lparr>timers := AList.update (tid t) h (timers s),
                      pending := pending s @ [(h, t, due)],
                      next_handle := Suc h,
                      log := log s @ [Armed (tid t) h due]\<rparr>)))"

text \<open>\<open>_handleTimeout\<close>: first \<open>_handleTask\<close>, then the task's handler.\<close>

definition handleTimeout :: "after_fn \<Rightarrow> sched \<Rightarrow> task \<Rightarrow> nat \<Rightarrow> sched" where
  "handleTimeout af s t now =
     (let s1 = handleTask af s t now in s1\<lparr>log := log s1 @ [Invoked (tid t)]\<rparr>)"

text \<open>
  \<open>_handlePoll\<close>: \<open>latest\<close> becomes the present instant, then every identifier that
  \<open>Object.keys(this.tasks)\<close> listed is looked up and handled. \<open>handleTask\<close> leaves \<open>tasks\<close>
  alone, so the lookup finds the task.
\<close>

definition handlePoll :: "after_fn \<Rightarrow> sched \<Rightarrow> nat \<Rightarrow> sched" where
  "handlePoll af s now =
     fold (\<lambda>k s'. case map_of (tasks s') k of
                     Some t \<Rightarrow> handleTask af s' t now
                   | None \<Rightarrow> s')
          (map fst (tasks s)) (s\<lparr>latest := now\<rparr>)"

subsection \<open>The public methods\<close>

text \<open>
  A method called with a callback returns the new state together with what the callback
  receives: \<open>Inl\<close> the error, \<open>Inr\<close> the result.
\<close>

fun key_of :: "jsval \<Rightarrow> string" where
  "key_of (JStr s) = s"
| "key_of v = []"

definition remove :: "sched \<Rightarrow> jsval \<Rightarrow> sched \<times> (error + jsval)" where
  "remove s ident =
     (if \<not> isStringNotEmpty ident then (s, Inl (ValidationError ''id'' ''string''))
      else (let k = key_of ident;
                s1 = (case map_of (timers s) k of Some h \<Rightarrow> clearTimeout s h | None \<Rightarrow> s)
            in (s1\<lparr>tasks := AList.delete k (tasks s1), timers := AList.delete k (timers s1)\<rparr>,
                Inr JNull)))"

text \<open>
  \<open>schedule\<close>: the waterfall constructs the task, then removes the task registered under
  its id; an error of either step goes to the callback and nothing else happens.
\<close>

definition schedule :: "after_fn \<Rightarrow> sched \<Rightarrow> opts \<Rightarrow> string \<Rightarrow> nat \<Rightarrow> sched \<times> (error + task)" where
  "schedule af s options fresh now =
     (case initialize options fresh (int now) of
        Inl e \<Rightarrow> (s, Inl e)
      | Inr t \<Rightarrow>
          (case remove s (JStr (tid t)) of
             (s1, Inl e) \<Rightarrow> (s1, Inl e)
           | (s1, Inr r) \<Rightarrow>
               (handleTask af (s1\<lparr>tasks := AList.update (tid t) t (tasks s1)\<rparr>) t now, Inr t)))"

subsection \<open>Executions\<close>

text \<open>
  An execution is a list of callbacks, each with the reading of the clock it runs at: a
  call of \<open>schedule\<close> or \<open>remove\<close>, a poll tick, or the firing of a pending timeout. The
  clock never goes back, and a timeout fires once, not before it is due. \<open>exec\<close> returns
  the clock and the state after the last callback, or \<open>None\<close> for a list that is not an
  execution.
\<close>

datatype call = Schedule opts string | Remove jsval | Poll | Fire nat

fun exec :: "after_fn \<Rightarrow> nat \<Rightarrow> sched \<Rightarrow> (nat \<times> call) list \<Rightarrow> (nat \<times> sched) option" where
  "exec af clock s [] = Some (clock, s)"
| "exec af clock s ((now, c) # rest) =
     (if now < clock then None
      else (case c of
              Schedule options fresh \<Rightarrow> exec af now (fst (schedule af s options fresh now)) rest
            | Remove ident \<Rightarrow> exec af now (fst (remove s ident)) rest
            | Poll \<Rightarrow> exec af now (handlePoll af s now) rest
            | Fire h \<Rightarrow>
                (case find (\<lambda>p. fst p = h) (pending s) of
                   None \<Rightarrow> None
                 | Some (h', t, due) \<Rightarrow>
                     (if int now < due then None
                      else exec af now (handleTimeout af (clearTimeout s h) t now) rest))))"

section \<open>Auxiliary notions for the properties\<close>

text \<open>
  One validation step of a construction: the validator's verdict on the value either
  raises the field's error or lets the rest run. On an object whose property is still
  undefined every setter returns the assigned value, so \<open>initialize\<close> is a sequence of
  such steps (lemma \<open>initialize_steps\<close>).
\<close>

definition check_field ::
  "string \<Rightarrow> (jsval \<Rightarrow> string option) \<Rightarrow> jsval \<Rightarrow> error + 'a \<Rightarrow> error + 'a"
where
  "check_field name validator v rest =
     (case validator v of Some expected \<Rightarrow> Inl (ValidationError name expected) | None \<Rightarrow> rest)"

text \<open>The options object \<open>{}\<close>.\<close>

definition plain :: opts where
  "plain = \<lparr>o_endDate = JUndefined, o_frequency = JUndefined, o_id = JUndefined,
     o_interval = JUndefined, o_iterations = JUndefined, o_month = JUndefined,
     o_monthDay = JUndefined, o_startDate = JUndefined, o_startTime = JUndefined,
     o_week = JUndefined, o_weekDay = JUndefined, o_weekDays = JUndefined\<rparr>"

text \<open>
  The task that \<open>initialize\<close> builds from the options \<open>{id: k, startDate: new Date(d)}\<close>
  (lemma \<open>initialize_once_at\<close>): frequency \<open>precise\<close>, one occurrence.
\<close>

definition once_at :: "string \<Rightarrow> int \<Rightarrow> task" where
  "once_at k d =
     \<lparr>tid = k, endDate = JNull, frequency = JStr ''precise'', interval = JNull,
      iterations = JNum 1, month = JNull, monthDay = JNull, startDate = JDate d,
      startTime = JNull, week = JNull, weekDay = JNull, weekDays = JArr [],
      adaptee = Some \<lparr>rr_freq = Some YEARLY, rr_interval = JNull, rr_count = JNum 1,
                       rr_byweekday = ManyDays [], rr_bymonth = JNull, rr_bymonthday = JNull,
                       rr_byhour = JNull, rr_byminute = JNull, rr_bysecond = JNull,
                       rr_bysetpos = JNull, rr_dtstart = JDate d, rr_until = JNull\<rparr>\<rparr>"


text \<open>
  The scheduler right after \<open>new XPScheduler({})\<close> at the instant 0 (lemma
  \<open>scheduler_initialize_idle\<close>), and the scheduler after a task \<open>a\<close> due at 1000 has
  been scheduled on it at the instant 10 (lemma \<open>schedule_one_task\<close>).
\<close>

definition idle :: sched where
  "idle = \<lparr>tasks = [], timers = [], latest = 0, poll_interval = 60000, pending = [],
            next_handle = 0, log = []\<rparr>"

definition one_task :: sched where
  "one_task = \<lparr>tasks = [(''a'', once_at ''a'' 1000)], timers = [(''a'', 0)], latest = 0,
                poll_interval = 60000, pending = [(0, once_at ''a'' 1000, 1000)],
                next_handle = 1, log = [Armed ''a'' 0 1000]\<rparr>"

text \<open>The states an execution of a newly constructed scheduler leads to.\<close>

definition reachable :: "after_fn \<Rightarrow> nat \<Rightarrow> sched \<Rightarrow> bool" where
  "reachable af clock s =
     (\<exists>options_interval clock0 s0 calls.
        scheduler_initialize options_interval clock0 = Inr s0 \<and>
        exec af clock0 s0 calls = Some (clock, s))"

text \<open>The handles of the pending timeouts that are bound to a task with the id \<open>k\<close>.\<close>

definition armed_for :: "sched \<Rightarrow> string \<Rightarrow> nat list" where
  "armed_for s k = map fst (filter (\<lambda>p. tid (fst (snd p)) = k) (pending s))"

text \<open>
  The timer-window invariant as the spec states it, at the instant \<open>clock\<close>: a registered
  task has a handle in \<open>timers\<close> exactly when its next occurrence is defined and lies
  within \<open>[latest, latest + interval]\<close>.
\<close>

definition timer_window :: "after_fn \<Rightarrow> nat \<Rightarrow> sched \<Rightarrow> bool" where
  "timer_window af clock s =
     list_all (\<lambda>(k, t). (map_of (timers s) k \<noteq> None) =
                  (case nextDate af t (int clock) of
                     None \<Rightarrow> False
                   | Some d \<Rightarrow> int (latest s) \<le> d \<and> d \<le> int (latest s) + poll_interval s))
              (tasks s)"

text \<open>
  The half of it that the scheduler keeps: a registered task whose next occurrence is
  defined and not later than \<open>latest + interval\<close> has a handle in \<open>timers\<close>.
\<close>

definition due_has_handle :: "after_fn \<Rightarrow> nat \<Rightarrow> sched \<Rightarrow> bool" where
  "due_has_handle af clock s =
     list_all (\<lambda>(k, t). case nextDate af t (int clock) of
                           None \<Rightarrow> True
                         | Some d \<Rightarrow> int (latest s) + poll_interval s < d \<or> map_of (timers s) k \<noteq> None)
              (tasks s)"

text \<open>
  Two facts about every state of an execution: the registry has one entry per id and a
  task is registered under its own id, and every handle in \<open>timers\<close> was issued before
  the next one to be issued.
\<close>

definition own_keys :: "sched \<Rightarrow> bool" where
  "own_keys s = (distinct (map fst (tasks s)) \<and> list_all (\<lambda>kt. tid (snd kt) = fst kt) (tasks s))"

definition handles_issued :: "sched \<Rightarrow> bool" where
  "handles_issued s = list_all (\<lambda>kh. snd kh < next_handle s) (timers s)"




definition monotone_after :: "after_fn \<Rightarrow> bool" where
  "monotone_after af =
     (\<forall>r u u' d'. u \<le> u' \<and> af r u' = Some d' \<longrightarrow> (\<exists>d. af r u = Some d \<and> d \<le> d'))"

section \<open>Construction of a task, step by step\<close>

lemmas assign_defs = assign_endDate_def assign_frequency_def assign_interval_def
  assign_iterations_def assign_month_def assign_monthDay_def assign_startDate_def
  assign_startTime_def assign_week_def assign_weekDay_def assign_weekDays_def

lemmas set_defs = endDate_set_def frequency_set_def interval_set_def
  iterations_set_def month_set_def monthDay_set_def startDate_set_def
  startTime_set_def week_set_def weekDay_set_def weekDays_set_def

lemma js_or_undefined: "js_or JUndefined v = v"
  by (simp add: js_or_def)

lemma and_then_Inr: "and_then (Inr x) f = f x"
  by (simp add: and_then_def)

lemma and_then_Inl: "and_then (Inl e) f = Inl e"
  by (simp add: and_then_def)

lemma and_then_eq_Inr: "and_then m f = Inr r \<longleftrightarrow> (\<exists>v. m = Inr v \<and> f v = Inr r)"
  by (cases m) (simp_all add: and_then_def)

lemma check_field_None: "validator v = None \<Longrightarrow> check_field name validator v rest = rest"
  by (simp add: check_field_def)

lemma check_field_eq_Inr:
  "check_field name validator v rest = Inr r \<longleftrightarrow> validator v = None \<and> rest = Inr r"
  by (simp add: check_field_def split: option.splits)

lemma map_sum_check_field:
  "map_sum id h (check_field name validator v rest) = check_field name validator v (map_sum id h rest)"
  by (simp add: check_field_def split: option.splits)

lemma map_sum_and_then: "map_sum id h (and_then m f) = and_then m (\<lambda>x. map_sum id h (f x))"
  by (cases m) (simp_all add: and_then_def)

lemma initialize_steps:
  "initialize options fresh now =
     check_field ''endDate'' endDate_validate (js_or (o_endDate options) JNull)
    (check_field ''frequency'' frequency_validate (js_or (o_frequency options) (JStr ''precise''))
    (and_then (assign_id blank (js_or (o_id options) (JStr fresh))) (\<lambda>ti.
     check_field ''interval'' interval_validate (js_or (o_interval options) JNull)
    (check_field ''iterations'' iterations_validate
        (if js_or (o_frequency options) (JStr ''precise'') \<noteq> JStr ''precise''
         then js_or (o_iterations options) JNull else JNum 1)
    (check_field ''month'' month_validate (js_or (o_month options) JNull)
    (check_field ''monthDay'' monthDay_validate (js_or (o_monthDay options) JNull)
    (check_field ''startDate'' startDate_validate (js_or (o_startDate options) (JDate now))
    (check_field ''startTime'' startTime_validate (js_or (o_startTime options) JNull)
    (check_field ''week'' week_validate (js_or (o_week options) JNull)
    (check_field ''weekDay'' weekDay_validate (js_or (o_weekDay options) JNull)
    (check_field ''weekDays'' weekDays_validate (js_or (o_weekDays options) (JArr []))
    (Inr (let t = \<lparr>tid = tid ti,
       endDate = js_or (o_endDate options) JNull,
       frequency = js_or (o_frequency options) (JStr ''precise''),
       interval = js_or (o_interval options) JNull,
       iterations = (if js_or (o_frequency options) (JStr ''precise'') \<noteq> JStr ''precise''
                     then js_or (o_iterations options) JNull else JNum 1),
       month = js_or (o_month options) JNull,
       monthDay = js_or (o_monthDay options) JNull,
       startDate = js_or (o_startDate options) (JDate now),
       startTime = js_or (o_startTime options) JNull,
       week = js_or (o_week options) JNull,
       weekDay = js_or (o_weekDay options) JNull,
       weekDays = js_or (o_weekDays options) (JArr []),
       adaptee = None\<rparr> in t\<lparr>adaptee := Some (make_rrule t)\<rparr>)))))))))))))"
  unfolding initialize_def assign_defs set_defs
  by (simp add: blank_def prop_assign_def isDefined_def Let_def check_field_def and_then_def
      assign_id_def js_or_undefined split: option.split jsval.split)

lemma frequency_validate_precise: "frequency_validate (JStr ''precise'') = None"
  by (simp add: frequency_validate_def frequencies_def)

lemma frequency_validate_yearly: "frequency_validate (JStr ''yearly'') = None"
  by (simp add: frequency_validate_def frequencies_def)

lemma iterations_validate_one: "iterations_validate (JNum 1) = None"
  by (simp add: iterations_validate_def isNull_def)

section \<open>The example task and the example states\<close>

lemmas validate_defs = endDate_validate_def frequency_validate_def interval_validate_def
  iterations_validate_def month_validate_def monthDay_validate_def startDate_validate_def
  startTime_validate_def week_validate_def weekDay_validate_def weekDays_validate_def

lemma initialize_once_at:
  "k \<noteq> [] \<Longrightarrow> initialize (plain\<lparr>o_id := JStr k, o_startDate := JDate d\<rparr>) fresh now = Inr (once_at k d)"
  by (simp add: initialize_steps plain_def js_or_def check_field_def validate_defs isNull_def
      frequencies_def assign_id_def and_then_def make_rrule_def js_and_def once_at_def Let_def)

lemma nextDate_once_at:
  "0 < p \<Longrightarrow> nextDate (fixed_step_after p) (once_at k d) u = (if u < d then Some d else None)"
  by (simp add: nextDate_def once_at_def fixed_step_after_def Let_def pos_imp_zdiv_neg_iff)

lemma tid_once_at: "tid (once_at k d) = k"
  by (simp add: once_at_def)


lemma scheduler_initialize_idle: "scheduler_initialize JUndefined 0 = Inr idle"
  by (simp add: scheduler_initialize_def prop_assign_def poll_interval_set_def js_or_def
      poll_interval_validate_def and_then_def idle_def)

lemma schedule_one_task:
  "schedule (fixed_step_after 1000) idle (plain\<lparr>o_id := JStr ''a'', o_startDate := JDate 1000\<rparr>) ''f'' 10
     = (one_task, Inr (once_at ''a'' 1000))"
  by (simp add: schedule_def initialize_once_at remove_def idle_def one_task_def handleTask_def
      nextDate_once_at tid_once_at timeout_delay_def Let_def)







section \<open>The frequency \<open>precise\<close>\<close>

text \<open>
  C10. The frequency \<open>precise\<close> is the yearly frequency with the number of iterations
  forced to 1: for every options object, the construction with frequency \<open>precise\<close> and
  the construction with frequency \<open>yearly\<close> and \<open>iterations = 1\<close>, all other fields equal
  and at the same instant, end alike: either both raise the same validation error, or
  both build a task, and the two tasks hand the same rule to the recurrence library and
  so have the same next date at every instant.
\<close>

theorem precise_is_yearly_once:
  "map_sum id (\<lambda>t. (adaptee t, nextDate af t u))
      (initialize (options\<lparr>o_frequency := JStr ''precise''\<rparr>) fresh now)
   = map_sum id (\<lambda>t. (adaptee t, nextDate af t u))
      (initialize (options\<lparr>o_frequency := JStr ''yearly'', o_iterations := JNum 1\<rparr>) fresh now)"
  by (simp add: initialize_steps map_sum_check_field map_sum_and_then js_or_def
      frequency_validate_precise frequency_validate_yearly iterations_validate_one
      check_field_None make_rrule_def nextDate_def frequencies_def Let_def
      cong: if_cong)

section \<open>Scheduling invalid options\<close>



section \<open>Removing a task\<close>

text \<open>
  C6, as stated, fails on the part "returns whether an entry existed": the callback of
  \<open>remove\<close> receives \<open>(null, null)\<close> both when the id is registered and when it is not.
\<close>

theorem remove_result_blind:
  "map_of (tasks one_task) ''a'' = Some (once_at ''a'' 1000)
   \<and> map_of (tasks idle) ''a'' = None
   \<and> snd (remove one_task (JStr ''a'')) = Inr JNull
   \<and> snd (remove idle (JStr ''a'')) = Inr JNull"
  by (simp add: one_task_def idle_def remove_def Let_def)

text \<open>
  C6, amended. For every non-empty string id, \<open>remove\<close> calls back with \<open>(null, null)\<close>
  and no error, whether or not an entry existed; afterwards neither the registry nor
  \<open>timers\<close> has an entry for the id, the timeout whose handle \<open>timers\<close> held for it is no
  longer pending, and the entries of every other id are as before. When the id has an
  entry neither in the registry nor in \<open>timers\<close>, the state is unchanged.
\<close>

theorem remove_effect:
  assumes "isStringNotEmpty ident"
  shows "snd (remove s ident) = Inr JNull
    \<and> map_of (tasks (fst (remove s ident))) (key_of ident) = None
    \<and> map_of (timers (fst (remove s ident))) (key_of ident) = None
    \<and> (\<forall>h. map_of (timers s) (key_of ident) = Some h \<longrightarrow> h \<notin> fst ` set (pending (fst (remove s ident))))
    \<and> (\<forall>k. k \<noteq> key_of ident \<longrightarrow>
          map_of (tasks (fst (remove s ident))) k = map_of (tasks s) k
          \<and> map_of (timers (fst (remove s ident))) k = map_of (timers s) k)
    \<and> (map_of (tasks s) (key_of ident) = None \<and> map_of (timers s) (key_of ident) = None
          \<longrightarrow> fst (remove s ident) = s)"
proof -
  let ?k = "key_of ident"
  let ?s' = "fst (remove s ident)"
  have tasks': "tasks ?s' = AList.delete ?k (tasks s)"
    and timers': "timers ?s' = AList.delete ?k (timers s)"
    and pending': "pending ?s' = (case map_of (timers s) ?k of Some h \<Rightarrow> filter (\<lambda>p. fst p \<noteq> h) (pending s) | None \<Rightarrow> pending s)"
    and res: "snd (remove s ident) = Inr JNull"
    using assms by (simp_all add: remove_def Let_def clearTimeout_def split: option.splits)
  have same: "?s' = s" if none: "map_of (tasks s) ?k = None" "map_of (timers s) ?k = None"
  proof -
    have "?k \<notin> fst ` set (tasks s)" "?k \<notin> fst ` set (timers s)"
      using none by (simp_all add: map_of_eq_None_iff)
    then show ?thesis
      using assms none(2) by (simp add: remove_def Let_def)
  qed
  show ?thesis
    using res same by (auto simp: tasks' timers' pending' delete_conv')
qed

theorem remove_effect_witness:
  "isStringNotEmpty (JStr ''a'')
   \<and> fst (remove one_task (JStr ''a'')) = idle\<lparr>next_handle := 1, log := [Armed ''a'' 0 1000]\<rparr>
   \<and> map_of (timers one_task) ''a'' = Some 0
   \<and> 0 \<notin> fst ` set (pending (fst (remove one_task (JStr ''a''))))
   \<and> fst (remove idle (JStr ''a'')) = idle"
  using remove_effect [of "JStr ''a''" one_task] remove_effect [of "JStr ''a''" idle]
  by (simp add: one_task_def idle_def remove_def Let_def clearTimeout_def)

section \<open>The iteration cap\<close>







section \<open>The handling of a timeout\<close>



section \<open>Set-once fields\<close>

lemma js_or_defined: "b \<noteq> JUndefined \<Longrightarrow> js_or a b = JUndefined \<longleftrightarrow> False"
  by (cases a) (auto simp: js_or_def)

lemma frequencies_truthy: "frequencies v \<noteq> None \<Longrightarrow> truthy v"
  by (cases v) (auto simp: frequencies_def split: if_splits)

lemma isArray_truthy: "isArray v \<Longrightarrow> truthy v"
  by (cases v) auto

lemma prop_assign_keep:
  "setter cur val = cur \<Longrightarrow> validator cur = None \<Longrightarrow> prop_assign name setter validator cur val = Inr cur"
  by (simp add: prop_assign_def)

lemma initialize_valid:
  assumes "initialize options fresh now = Inr t"
  shows "endDate_validate (endDate t) = None" "isDefined (endDate t)"
    "frequency_validate (frequency t) = None"
    "interval_validate (interval t) = None" "isDefined (interval t)"
    "iterations_validate (iterations t) = None" "isDefined (iterations t)"
    "month_validate (month t) = None" "isDefined (month t)"
    "monthDay_validate (monthDay t) = None" "isDefined (monthDay t)"
    "startDate_validate (startDate t) = None" "isDefined (startDate t)"
    "startTime_validate (startTime t) = None" "isDefined (startTime t)"
    "week_validate (week t) = None" "isDefined (week t)"
    "weekDay_validate (weekDay t) = None" "isDefined (weekDay t)"
    "weekDays_validate (weekDays t) = None"
  using assms
  unfolding initialize_steps check_field_eq_Inr and_then_eq_Inr
  by (auto simp: Let_def js_or_defined isDefined_def split: if_splits)

lemma scheduler_initialize_valid:
  assumes "scheduler_initialize oi now = Inr s"
  shows "poll_interval_validate (JNum (poll_interval s)) = None" "poll_interval s \<noteq> 0"
proof -
  let ?p = "js_or oi (JNum 60000)"
  from assms have v: "poll_interval_validate ?p = None" and s: "poll_interval s = num_of ?p"
    by (auto simp: scheduler_initialize_def and_then_eq_Inr prop_assign_def poll_interval_set_def
        js_or_undefined Let_def split: option.splits)
  from v obtain n where n: "?p = JNum n"
    by (cases ?p) (auto simp: poll_interval_validate_def)
  have "truthy ?p" by (simp add: js_or_def)
  with n v s show "poll_interval_validate (JNum (poll_interval s)) = None" "poll_interval s \<noteq> 0"
    by auto
qed

text \<open>
  C8. On a constructed task, an assignment of any value to \<open>endDate\<close>, \<open>frequency\<close>,
  \<open>interval\<close>, \<open>iterations\<close>, \<open>month\<close>, \<open>monthDay\<close>, \<open>startDate\<close>, \<open>startTime\<close>, \<open>week\<close>,
  \<open>weekDay\<close> or \<open>weekDays\<close>, and on a constructed scheduler an assignment to \<open>interval\<close>,
  raises no error and leaves the object as it is: the value of the first assignment, the
  one the constructor made, stays.
\<close>

theorem fields_set_once:
  assumes t: "initialize options fresh now = Inr t"
    and s: "scheduler_initialize options_interval clock = Inr s"
  shows "assign_endDate t v = Inr t \<and> assign_frequency t v = Inr t \<and> assign_interval t v = Inr t
    \<and> assign_iterations t v = Inr t \<and> assign_month t v = Inr t \<and> assign_monthDay t v = Inr t
    \<and> assign_startDate t v = Inr t \<and> assign_startTime t v = Inr t \<and> assign_week t v = Inr t
    \<and> assign_weekDay t v = Inr t \<and> assign_weekDays t v = Inr t
    \<and> assign_poll_interval s v = Inr s"
proof -
  note valid = initialize_valid [OF t]
  have freq: "truthy (frequency t)"
    using valid(3) by (auto simp: frequency_validate_def intro: frequencies_truthy split: if_splits)
  have days: "truthy (weekDays t)"
    using valid(20) by (auto simp: weekDays_validate_def intro: isArray_truthy split: if_splits)
  have "assign_poll_interval s v = Inr s"
    using scheduler_initialize_valid [OF s]
    by (simp add: assign_poll_interval_def prop_assign_def poll_interval_set_def js_or_def and_then_Inr)
  then show ?thesis
    using valid freq days
    by (simp add: assign_defs set_defs prop_assign_keep and_then_Inr js_or_def)
qed

theorem fields_set_once_witness:
  "initialize (plain\<lparr>o_id := JStr ''a'', o_startDate := JDate 1000\<rparr>) ''f'' 0 = Inr (once_at ''a'' 1000)
   \<and> scheduler_initialize JUndefined 0 = Inr idle
   \<and> assign_endDate (once_at ''a'' 1000) (JDate 5) = Inr (once_at ''a'' 1000)
   \<and> assign_frequency (once_at ''a'' 1000) (JStr ''daily'') = Inr (once_at ''a'' 1000)
   \<and> assign_iterations (once_at ''a'' 1000) (JNum 7) = Inr (once_at ''a'' 1000)
   \<and> assign_month (once_at ''a'' 1000) (JNum 13) = Inr (once_at ''a'' 1000)
   \<and> assign_startDate (once_at ''a'' 1000) (JDate 2000) = Inr (once_at ''a'' 1000)
   \<and> assign_poll_interval idle (JNum 5) = Inr idle"
proof -
  have a: "initialize (plain\<lparr>o_id := JStr ''a'', o_startDate := JDate 1000\<rparr>) ''f'' 0 = Inr (once_at ''a'' 1000)"
    by (simp add: initialize_once_at)
  note once = fields_set_once [OF a scheduler_initialize_idle]
  show ?thesis
    using a scheduler_initialize_idle once [of "JDate 5"] once [of "JStr ''daily''"] once [of "JNum 7"]
      once [of "JNum 13"] once [of "JDate 2000"] once [of "JNum 5"]
    by simp
qed

section \<open>Invariants of executions\<close>

lemma exec_invariant:
  assumes run: "exec af c s calls = Some (c', s')" and start: "P c s"
    and sched: "\<And>c s now options fresh. P c s \<Longrightarrow> c \<le> now \<Longrightarrow> P now (fst (schedule af s options fresh now))"
    and rem: "\<And>c s now ident. P c s \<Longrightarrow> c \<le> now \<Longrightarrow> P now (fst (remove s ident))"
    and poll: "\<And>c s now. P c s \<Longrightarrow> c \<le> now \<Longrightarrow> P now (handlePoll af s now)"
    and fire: "\<And>c s now h t. P c s \<Longrightarrow> c \<le> now \<Longrightarrow> P now (handleTimeout af (clearTimeout s h) t now)"
  shows "P c' s'"
  using run start
proof (induction calls arbitrary: c s)
  case Nil
  then show ?case by simp
next
  case (Cons call calls)
  obtain now cl where call: "call = (now, cl)" by (cases call)
  from Cons.prems(1) have le: "c \<le> now"
    by (simp add: call split: if_splits)
  show ?case
  proof (cases cl)
    case (Schedule options fresh)
    with Cons.prems le call
    have "exec af now (fst (schedule af s options fresh now)) calls = Some (c', s')" by simp
    then show ?thesis using sched [OF Cons.prems(2) le] by (rule Cons.IH)
  next
    case (Remove ident)
    with Cons.prems le call
    have "exec af now (fst (remove s ident)) calls = Some (c', s')" by simp
    then show ?thesis using rem [OF Cons.prems(2) le] by (rule Cons.IH)
  next
    case Poll
    with Cons.prems le call
    have "exec af now (handlePoll af s now) calls = Some (c', s')" by simp
    then show ?thesis using poll [OF Cons.prems(2) le] by (rule Cons.IH)
  next
    case (Fire h)
    with Cons.prems le call
    obtain t where "exec af now (handleTimeout af (clearTimeout s h) t now) calls = Some (c', s')"
      by (auto split: option.splits if_splits)
    then show ?thesis using fire [OF Cons.prems(2) le] by (rule Cons.IH)
  qed
qed

subsection \<open>What the handlers leave alone\<close>

lemma handleTask_frame [simp]:
  "tasks (handleTask af s t now) = tasks s"
  "latest (handleTask af s t now) = latest s"
  "poll_interval (handleTask af s t now) = poll_interval s"
  by (simp_all add: handleTask_def Let_def split: option.splits)

lemma handleTimeout_frame [simp]:
  "tasks (handleTimeout af s t now) = tasks s"
  "latest (handleTimeout af s t now) = latest s"
  "poll_interval (handleTimeout af s t now) = poll_interval s"
  "timers (handleTimeout af s t now) = timers (handleTask af s t now)"
  "next_handle (handleTimeout af s t now) = next_handle (handleTask af s t now)"
  by (simp_all add: handleTimeout_def Let_def)

lemma clearTimeout_frame [simp]:
  "tasks (clearTimeout s h) = tasks s"
  "timers (clearTimeout s h) = timers s"
  "latest (clearTimeout s h) = latest s"
  "poll_interval (clearTimeout s h) = poll_interval s"
  "next_handle (clearTimeout s h) = next_handle s"
  by (simp_all add: clearTimeout_def)

lemma remove_frame [simp]:
  "latest (fst (remove s ident)) = latest s"
  "poll_interval (fst (remove s ident)) = poll_interval s"
  "next_handle (fst (remove s ident)) = next_handle s"
  by (simp_all add: remove_def Let_def split: option.splits)

lemma remove_tasks_timers:
  "tasks (fst (remove s ident)) = (if isStringNotEmpty ident then AList.delete (key_of ident) (tasks s) else tasks s)"
  "timers (fst (remove s ident)) = (if isStringNotEmpty ident then AList.delete (key_of ident) (timers s) else timers s)"
  by (simp_all add: remove_def Let_def split: option.splits)

lemma handlePoll_fold:
  "fold (\<lambda>k s'. case map_of (tasks s') k of Some t \<Rightarrow> handleTask af s' t now | None \<Rightarrow> s') ks s = s'
   \<Longrightarrow> tasks s' = tasks s \<and> latest s' = latest s \<and> poll_interval s' = poll_interval s"
  by (induction ks arbitrary: s) (auto split: option.splits)

lemma handlePoll_frame [simp]:
  "tasks (handlePoll af s now) = tasks s"
  "latest (handlePoll af s now) = now"
  "poll_interval (handlePoll af s now) = poll_interval s"
  using handlePoll_fold [OF refl, of af now "map fst (tasks s)" "s\<lparr>latest := now\<rparr>"]
  by (simp_all add: handlePoll_def)

lemma initialize_tid: "initialize options fresh now = Inr t \<Longrightarrow> tid t \<noteq> []"
  unfolding initialize_steps check_field_eq_Inr and_then_eq_Inr
  by (cases "js_or (o_id options) (JStr fresh)") (auto simp: assign_id_def Let_def split: if_splits)

lemma schedule_state:
  assumes "initialize options fresh (int now) = Inr t"
  shows "schedule af s options fresh now =
    (handleTask af ((fst (remove s (JStr (tid t))))\<lparr>tasks := AList.update (tid t) t (AList.delete (tid t) (tasks s))\<rparr>) t now, Inr t)"
  using assms initialize_tid [OF assms]
  by (simp add: schedule_def remove_def Let_def split: option.splits)

lemma schedule_failed:
  "initialize options fresh (int now) = Inl e \<Longrightarrow> schedule af s options fresh now = (s, Inl e)"
  by (simp add: schedule_def)

subsection \<open>Handles\<close>

lemma set_update_subset: "set (AList.update k v xs) \<subseteq> insert (k, v) (set xs)"
  by (induction xs) auto

lemma set_delete_subset: "set (AList.delete k xs) \<subseteq> set xs"
  by (auto simp: AList.delete_eq)

lemma handleTask_next_handle: "next_handle s \<le> next_handle (handleTask af s t now)"
  by (simp add: handleTask_def Let_def split: option.splits)

lemma in_set_updateD: "x \<in> set (AList.update k v xs) \<Longrightarrow> x = (k, v) \<or> x \<in> set xs"
  using set_update_subset [of k v xs] by auto


lemma handles_issued_tasks_update [simp]:
  "handles_issued (s\<lparr>tasks := ts\<rparr>) = handles_issued s"
  by (simp add: handles_issued_def)







section \<open>Replacing a task\<close>





lemma armed_for_tasks_update [simp]: "armed_for (s\<lparr>tasks := ts\<rparr>) k = armed_for s k"
  by (simp add: armed_for_def)



lemma reachable_one_task: "reachable (fixed_step_after 1000) 10 one_task"
  unfolding reachable_def
  by (rule exI [of _ JUndefined], rule exI [of _ 0], rule exI [of _ idle],
      rule exI [of _ "[(10, Schedule (plain\<lparr>o_id := JStr ''a'', o_startDate := JDate 1000\<rparr>) ''f'')]"])
     (simp add: scheduler_initialize_idle schedule_one_task)



section \<open>One occurrence, two timers\<close>

lemmas run_defs = schedule_def initialize_once_at remove_def idle_def handleTask_def handlePoll_def
  handleTimeout_def clearTimeout_def nextDate_once_at tid_once_at timeout_delay_def Let_def

text \<open>
  C7 fails on the code. A task with the single occurrence 120001 is scheduled at 60010,
  after a poll tick at 60002, and gets a timeout; the poll tick at 120000 finds the same
  occurrence within its window and sets a second timeout without looking at \<open>timers\<close>, so
  that two timeouts for the one occurrence of the task are pending and \<open>timers\<close> knows the
  second only. Both fire at 120001 and the handler is invoked twice. When the task is
  removed after the second tick, only the second timeout is cleared: the first fires and
  invokes the handler of a task that is no longer registered.
\<close>

theorem poll_arms_pending_occurrence_again:
  "map_option (\<lambda>cs. (armed_for (snd cs) ''a'', map (snd \<circ> snd) (pending (snd cs)), timers (snd cs)))
     (exec (fixed_step_after 1000) 0 idle
        [(60002, Poll),
         (60010, Schedule (plain\<lparr>o_id := JStr ''a'', o_startDate := JDate 120001\<rparr>) ''f''),
         (120000, Poll)])
     = Some ([0, 1], [120001, 120001], [(''a'', 1)])
   \<and> map_option (\<lambda>cs. log (snd cs))
     (exec (fixed_step_after 1000) 0 idle
        [(60002, Poll),
         (60010, Schedule (plain\<lparr>o_id := JStr ''a'', o_startDate := JDate 120001\<rparr>) ''f''),
         (120000, Poll), (120001, Fire 0), (120001, Fire 1)])
     = Some [Armed ''a'' 0 120001, Armed ''a'' 1 120001, Invoked ''a'', Invoked ''a'']
   \<and> map_option (\<lambda>cs. (tasks (snd cs), timers (snd cs), log (snd cs)))
     (exec (fixed_step_after 1000) 0 idle
        [(60002, Poll),
         (60010, Schedule (plain\<lparr>o_id := JStr ''a'', o_startDate := JDate 120001\<rparr>) ''f''),
         (120000, Poll), (120000, Remove (JStr ''a'')), (120001, Fire 0)])
     = Some ([], [], [Armed ''a'' 0 120001, Armed ''a'' 1 120001, Invoked ''a''])"
  by (simp add: run_defs armed_for_def)

section \<open>The timer window\<close>

text \<open>
  C1, as stated, fails: after the only timeout of a task with one occurrence has fired,
  the task is registered and exhausted, and \<open>timers\<close> still holds the handle of the
  timeout that fired. \<open>_handleTimeout\<close> never deletes the entry.
\<close>

theorem fired_timer_keeps_handle:
  "exec (fixed_step_after 1000) 0 idle
     [(10, Schedule (plain\<lparr>o_id := JStr ''a'', o_startDate := JDate 1000\<rparr>) ''f''), (1000, Fire 0)]
     = Some (1000, one_task\<lparr>pending := [], log := [Armed ''a'' 0 1000, Invoked ''a'']\<rparr>)
   \<and> map_of (timers (one_task\<lparr>pending := [], log := [Armed ''a'' 0 1000, Invoked ''a'']\<rparr>)) ''a'' = Some 0
   \<and> nextDate (fixed_step_after 1000) (once_at ''a'' 1000) 1000 = None
   \<and> \<not> timer_window (fixed_step_after 1000) 1000
         (one_task\<lparr>pending := [], log := [Armed ''a'' 0 1000, Invoked ''a'']\<rparr>)"
  by (simp add: run_defs one_task_def timer_window_def)

lemma due_has_handle_iff:
  "due_has_handle af c s \<longleftrightarrow>
     (\<forall>k t d. (k, t) \<in> set (tasks s) \<longrightarrow> nextDate af t (int c) = Some d \<longrightarrow>
        d \<le> int (latest s) + poll_interval s \<longrightarrow> map_of (timers s) k \<noteq> None)"
  by (fastforce simp: due_has_handle_def list_all_iff split: option.splits)

lemma own_keys_iff:
  "own_keys s \<longleftrightarrow> distinct (map fst (tasks s)) \<and> (\<forall>k t. (k, t) \<in> set (tasks s) \<longrightarrow> tid t = k)"
  by (fastforce simp: own_keys_def list_all_iff)

lemma monotone_nextDate:
  assumes "monotone_after af" and "u \<le> u'" and "nextDate af t u' = Some d'"
  shows "\<exists>d. nextDate af t u = Some d \<and> d \<le> d'"
  using assms by (auto simp: monotone_after_def nextDate_def split: option.splits)

lemma due_has_handle_advance:
  assumes mono: "monotone_after af" and le: "c \<le> now" and inv: "due_has_handle af c s"
  shows "due_has_handle af now s"
  unfolding due_has_handle_iff
proof (intro allI impI)
  fix k t d'
  assume kt: "(k, t) \<in> set (tasks s)" and d': "nextDate af t (int now) = Some d'"
    and b: "d' \<le> int (latest s) + poll_interval s"
  from le have "int c \<le> int now" by simp
  from monotone_nextDate [OF mono this d'] obtain d where "nextDate af t (int c) = Some d" "d \<le> d'"
    by blast
  with inv kt b show "map_of (timers s) k \<noteq> None"
    unfolding due_has_handle_iff by (meson order_trans)
qed

lemma handleTask_timers_grow:
  "map_of (timers s) k \<noteq> None \<Longrightarrow> map_of (timers (handleTask af s t now)) k \<noteq> None"
  by (simp add: handleTask_def Let_def update_conv' split: option.splits)

lemma handleTask_arms:
  "nextDate af t (int now) = Some d \<Longrightarrow> d \<le> int (latest s) + poll_interval s \<Longrightarrow>
     map_of (timers (handleTask af s t now)) (tid t) \<noteq> None"
  by (simp add: handleTask_def Let_def update_conv')

lemma due_has_handle_handleTask:
  "due_has_handle af c s \<Longrightarrow> due_has_handle af c (handleTask af s t now)"
  unfolding due_has_handle_iff by (simp add: handleTask_timers_grow)

lemma own_keys_tasks: "tasks s' = tasks s \<Longrightarrow> own_keys s' = own_keys s"
  by (simp add: own_keys_def)

lemma due_has_handle_cong:
  "tasks s' = tasks s \<Longrightarrow> timers s' = timers s \<Longrightarrow> latest s' = latest s \<Longrightarrow>
     poll_interval s' = poll_interval s \<Longrightarrow> due_has_handle af c s' = due_has_handle af c s"
  unfolding due_has_handle_iff by simp

lemma fold_timers_grow:
  "map_of (timers s) k \<noteq> None \<Longrightarrow>
   map_of (timers (fold (\<lambda>k s'. case map_of (tasks s') k of Some t \<Rightarrow> handleTask af s' t now | None \<Rightarrow> s') ks s)) k \<noteq> None"
proof (induction ks arbitrary: s)
  case Nil
  then show ?case by simp
next
  case (Cons a ks)
  let ?step = "\<lambda>k s'. case map_of (tasks s') k of Some t \<Rightarrow> handleTask af s' t now | None \<Rightarrow> s'"
  have "map_of (timers (?step a s)) k \<noteq> None"
  proof (cases "map_of (tasks s) a")
    case None
    with Cons.prems show ?thesis by simp
  next
    case (Some t)
    with handleTask_timers_grow [OF Cons.prems, of af t now] show ?thesis by simp
  qed
  from Cons.IH [OF this] show ?case by simp
qed

lemma fold_arms:
  assumes "k \<in> set ks" and "map_of (tasks s) k = Some t"
    and "nextDate af t (int now) = Some d" and "d \<le> int (latest s) + poll_interval s"
  shows "map_of (timers (fold (\<lambda>k s'. case map_of (tasks s') k of Some t \<Rightarrow> handleTask af s' t now | None \<Rightarrow> s') ks s)) (tid t) \<noteq> None"
  using assms
proof (induction ks arbitrary: s)
  case Nil
  then show ?case by simp
next
  case (Cons a ks)
  let ?step = "\<lambda>k s'. case map_of (tasks s') k of Some t \<Rightarrow> handleTask af s' t now | None \<Rightarrow> s'"
  have frame: "tasks (?step a s) = tasks s" "latest (?step a s) = latest s"
    "poll_interval (?step a s) = poll_interval s"
    by (simp_all split: option.splits)
  show ?case
  proof (cases "a = k")
    case True
    with Cons.prems have "map_of (timers (?step a s)) (tid t) \<noteq> None"
      by (simp add: handleTask_arms)
    then show ?thesis by (simp add: fold_timers_grow)
  next
    case False
    with Cons.prems have "k \<in> set ks" by simp
    from Cons.IH [OF this, of "?step a s"] Cons.prems frame
    show ?thesis by simp
  qed
qed

lemma due_has_handle_poll:
  assumes "own_keys s"
  shows "due_has_handle af now (handlePoll af s now)"
  unfolding due_has_handle_iff
proof (intro allI impI)
  fix k t d
  assume kt: "(k, t) \<in> set (tasks (handlePoll af s now))"
    and d: "nextDate af t (int now) = Some d"
    and b: "d \<le> int (latest (handlePoll af s now)) + poll_interval (handlePoll af s now)"
  from kt have kt: "(k, t) \<in> set (tasks s)" by simp
  with assms have m: "map_of (tasks s) k = Some t" and tid: "tid t = k"
    by (auto simp: own_keys_iff)
  from kt have "k \<in> set (map fst (tasks s))" by force
  moreover have "map_of (tasks (s\<lparr>latest := now\<rparr>)) k = Some t" using m by simp
  moreover note d
  moreover have "d \<le> int (latest (s\<lparr>latest := now\<rparr>)) + poll_interval (s\<lparr>latest := now\<rparr>)"
    using b by simp
  ultimately have "map_of (timers (fold (\<lambda>k s'. case map_of (tasks s') k of Some t \<Rightarrow> handleTask af s' t now | None \<Rightarrow> s')
      (map fst (tasks s)) (s\<lparr>latest := now\<rparr>))) (tid t) \<noteq> None"
    by (rule fold_arms)
  then show "map_of (timers (handlePoll af s now)) k \<noteq> None"
    by (simp add: handlePoll_def tid)
qed

lemma own_keys_remove: "own_keys s \<Longrightarrow> own_keys (fst (remove s ident))"
  using set_delete_subset [of "key_of ident" "tasks s"]
  by (auto simp: own_keys_iff remove_tasks_timers distinct_delete)

lemma in_set_deleteD: "(k', v) \<in> set (AList.delete k xs) \<Longrightarrow> k' \<noteq> k \<and> (k', v) \<in> set xs"
  by (auto simp: AList.delete_eq)

lemma due_has_handle_remove:
  "due_has_handle af c s \<Longrightarrow> due_has_handle af c (fst (remove s ident))"
  unfolding due_has_handle_iff
  by (auto simp: remove_tasks_timers delete_conv' dest!: in_set_deleteD)

lemma own_keys_schedule:
  assumes "own_keys s"
  shows "own_keys (fst (schedule af s options fresh now))"
proof (cases "initialize options fresh (int now)")
  case (Inl e)
  with assms show ?thesis by (simp add: schedule_failed)
next
  case (Inr t)
  from assms show ?thesis
    by (auto simp: schedule_state [OF Inr] own_keys_iff distinct_update distinct_delete
        dest!: in_set_updateD in_set_deleteD)
qed

lemma due_has_handle_schedule:
  assumes keys: "own_keys s" and inv: "due_has_handle af now s"
  shows "due_has_handle af now (fst (schedule af s options fresh now))"
proof (cases "initialize options fresh (int now)")
  case (Inl e)
  with inv show ?thesis by (simp add: schedule_failed)
next
  case (Inr t)
  let ?k = "tid t"
  let ?s1 = "(fst (remove s (JStr ?k)))\<lparr>tasks := AList.update ?k t (AList.delete ?k (tasks s))\<rparr>"
  have k: "?k \<noteq> []" by (rule initialize_tid [OF Inr])
  have timers1: "timers ?s1 = AList.delete ?k (timers s)"
    using k by (simp add: remove_tasks_timers)
  show ?thesis
    unfolding due_has_handle_iff schedule_state [OF Inr] fst_conv
  proof (intro allI impI)
    fix k' t' d
    assume kt: "(k', t') \<in> set (tasks (handleTask af ?s1 t now))"
      and d: "nextDate af t' (int now) = Some d"
      and b: "d \<le> int (latest (handleTask af ?s1 t now)) + poll_interval (handleTask af ?s1 t now)"
    from b have b': "d \<le> int (latest s) + poll_interval s" by simp
    from kt have "(k', t') = (?k, t) \<or> (k' \<noteq> ?k \<and> (k', t') \<in> set (tasks s))"
      by (auto dest!: in_set_updateD in_set_deleteD)
    then show "map_of (timers (handleTask af ?s1 t now)) k' \<noteq> None"
    proof
      assume "(k', t') = (?k, t)"
      with d b' show ?thesis by (simp add: handleTask_arms)
    next
      assume old: "k' \<noteq> ?k \<and> (k', t') \<in> set (tasks s)"
      with inv d b' have "map_of (timers s) k' \<noteq> None"
        unfolding due_has_handle_iff by blast
      with old have "map_of (timers ?s1) k' \<noteq> None"
        by (simp add: timers1 delete_conv')
      then show ?thesis by (rule handleTask_timers_grow)
    qed
  qed
qed

lemma due_has_handle_timeout:
  assumes "due_has_handle af now s"
  shows "due_has_handle af now (handleTimeout af (clearTimeout s h) t now)"
proof -
  have "due_has_handle af now (clearTimeout s h)"
    using assms by (simp add: due_has_handle_cong [of "clearTimeout s h" s])
  then have "due_has_handle af now (handleTask af (clearTimeout s h) t now)"
    by (rule due_has_handle_handleTask)
  then show ?thesis
    by (simp add: due_has_handle_cong [of "handleTimeout af (clearTimeout s h) t now"
          "handleTask af (clearTimeout s h) t now"])
qed

lemma reachable_due_has_handle:
  assumes mono: "monotone_after af" and reach: "reachable af clock s"
  shows "own_keys s \<and> due_has_handle af clock s"
proof -
  from reach obtain oi c0 s0 calls where init: "scheduler_initialize oi c0 = Inr s0"
    and run: "exec af c0 s0 calls = Some (clock, s)"
    by (auto simp: reachable_def)
  from init have "own_keys s0 \<and> due_has_handle af c0 s0"
    by (auto simp: scheduler_initialize_def and_then_eq_Inr own_keys_def due_has_handle_def)
  with run show ?thesis
  proof (rule exec_invariant [where P = "\<lambda>c s. own_keys s \<and> due_has_handle af c s"], goal_cases)
    case (1 c s now options fresh)
    then show ?case
      by (simp add: own_keys_schedule due_has_handle_schedule due_has_handle_advance [OF mono])
  next
    case (2 c s now ident)
    then show ?case
      by (simp add: own_keys_remove due_has_handle_remove due_has_handle_advance [OF mono])
  next
    case (3 c s now)
    then show ?case
      by (simp add: due_has_handle_poll own_keys_tasks [of "handlePoll af s now" s])
  next
    case (4 c s now h t)
    then show ?case
      by (simp add: due_has_handle_timeout due_has_handle_advance [OF mono]
          own_keys_tasks [of "handleTimeout af (clearTimeout s h) t now" s])
  qed
qed

lemma step_index_mono:
  fixes u u' d0 step :: int
  assumes "0 < step" and "u \<le> u'"
  shows "(if u < d0 then 0 else (u - d0) div step + 1) \<le> (if u' < d0 then 0 else (u' - d0) div step + 1)"
proof (cases "u < d0")
  case True
  have "0 \<le> (u' - d0) div step" if "\<not> u' < d0"
    using that assms(1) by (simp add: pos_imp_zdiv_nonneg_iff)
  with True show ?thesis by auto
next
  case False
  with assms(2) have "\<not> u' < d0" by simp
  moreover have "(u - d0) div step \<le> (u' - d0) div step"
    using assms by (simp add: zdiv_mono1)
  ultimately show ?thesis using False by simp
qed

lemma monotone_fixed_step_after: "monotone_after (fixed_step_after p)"
  unfolding monotone_after_def
proof (intro allI impI)
  fix r u u' d'
  assume a: "u \<le> u' \<and> fixed_step_after p r u' = Some d'"
  then obtain d0 where d0: "rr_dtstart r = JDate d0"
    by (cases "rr_dtstart r") (auto simp: fixed_step_after_def)
  define step where "step = (case rr_interval r of JNum k \<Rightarrow> k | _ \<Rightarrow> 1) * p"
  define idx where "idx v = (if v < d0 then 0 else (v - d0) div step + 1)" for v
  define within where "within k = (case rr_count r of JNum n \<Rightarrow> k < n | _ \<Rightarrow> True)" for k :: int
  define before where "before d = (case rr_until r of JDate e \<Rightarrow> d \<le> e | _ \<Rightarrow> True)" for d :: int
  have eq: "fixed_step_after p r v =
      (if 0 < step \<and> within (idx v) \<and> before (d0 + idx v * step) then Some (d0 + idx v * step) else None)" for v
    unfolding within_def before_def idx_def step_def
    by (simp add: fixed_step_after_def d0 Let_def)
  from a have pos: "0 < step" and w: "within (idx u')" and b: "before (d0 + idx u' * step)"
    and d': "d' = d0 + idx u' * step"
    by (auto simp: eq split: if_splits)
  from a pos have k: "idx u \<le> idx u'"
    unfolding idx_def by (intro step_index_mono) simp_all
  with pos have le: "d0 + idx u * step \<le> d0 + idx u' * step"
    by (simp add: mult_right_mono)
  from w k have "within (idx u)"
    by (cases "rr_count r") (auto simp: within_def)
  moreover from b le have "before (d0 + idx u * step)"
    by (cases "rr_until r") (auto simp: before_def)
  ultimately have "fixed_step_after p r u = Some (d0 + idx u * step)"
    using pos by (simp add: eq)
  with le d' show "\<exists>d. fixed_step_after p r u = Some d \<and> d \<le> d'" by blast
qed

lemma handleTask_arms_iff:
  "(pending (handleTask af s t now) \<noteq> pending s) =
     (\<exists>d. nextDate af t (int now) = Some d \<and> d \<le> int (latest s) + poll_interval s)"
  by (auto simp: handleTask_def Let_def split: option.splits)

text \<open>
  C1, amended. With a recurrence library whose answer never gets earlier when the instant
  gets later: at every point between the callbacks of an execution, every registered task
  whose next occurrence is defined and not later than \<open>latest + interval\<close> has a timer
  handle in \<open>timers\<close>; and a timeout is set for a task exactly when, at that moment, its next
  occurrence is defined and not later than \<open>latest + interval\<close>. The converse is not
  claimed: the handle of a timeout that has fired stays in \<open>timers\<close> until the task is
  removed or armed again.
\<close>

theorem due_tasks_have_handles:
  assumes "monotone_after af" and "reachable af clock s"
  shows "due_has_handle af clock s
    \<and> (\<forall>t now. (pending (handleTask af s t now) \<noteq> pending s) =
          (\<exists>d. nextDate af t (int now) = Some d \<and> d \<le> int (latest s) + poll_interval s))"
  using reachable_due_has_handle [OF assms] by (simp add: handleTask_arms_iff)

theorem due_tasks_have_handles_witness:
  "monotone_after (fixed_step_after 1000)
   \<and> reachable (fixed_step_after 1000) 10 one_task
   \<and> due_has_handle (fixed_step_after 1000) 10 one_task
   \<and> nextDate (fixed_step_after 1000) (once_at ''a'' 1000) (int 10) = Some 1000
   \<and> map_of (timers one_task) ''a'' = Some 0"
  using due_tasks_have_handles [OF monotone_fixed_step_after reachable_one_task]
    monotone_fixed_step_after reachable_one_task
  by (simp add: nextDate_once_at one_task_def)

end
